theory Spec2Isabelle
  imports Main
begin

section \<open>The MedAssist chat session (src/components/chatbot/ChatbotInterface.tsx)\<close>

text \<open>
  The component is a React function component. Its state variables (\<open>input\<close>,
  \<open>messages\<close>, \<open>isLoading\<close>, \<open>sessionId\<close>) and the world it acts on (the
  \<open>medassist_session_id\<close> entry of localStorage, the calls made through
  \<open>supabase.functions.invoke\<close>, the toasts, the console) are the fields of one record.
  Every \<open>await\<close> of the source is a suspension point: the part of a handler before it runs
  when the event fires, the part after it runs when the awaited promise settles, on the
  values the handler captured when it was called. A suspended handler is a \<open>task\<close>.
  Instants (\<open>Date.now()\<close>, \<open>new Date()\<close>) are milliseconds as naturals, supplied by the
  event; the identifier minted by \<open>uuidv4()\<close> is supplied to \<open>mount\<close>. Characters are
  single bytes, so \<open>trim\<close> knows the white space of ECMAScript that fits in one.
\<close>

subsection \<open>Data\<close>

datatype role = User | Bot

record Message =
  msg_id :: string
  content :: string
  role :: role
  timestamp :: nat

text \<open>An entry of \<open>previousMessages\<close>: the object literal \<open>{ role, content }\<close>.\<close>

record previous_message =
  pm_role :: role
  pm_content :: string

definition initialMessages :: "nat \<Rightarrow> Message list" where
  "initialMessages t0 =
     [\<lparr>msg_id = ''1'',
       content = ''Hi there! I'm MedAssist, your Indian healthcare assistant. I can help with health questions, suggest appropriate specialists in India, and provide information about medications available here. How can I help you today?'',
       role = Bot,
       timestamp = t0\<rparr>]"

definition suggestedQueries :: "string list" where
  "suggestedQueries =
     [''What specialist should I see for joint pain in India?'',
      ''Are Ayurvedic remedies effective for digestive issues?'',
      ''Common symptoms of dengue fever?'']"

text \<open>What \<open>supabase.functions.invoke\<close> was asked to do, in the order of the calls.\<close>

datatype invocation =
    GetSession string
  | SaveSession string "Message list"
  | SaveMessage string Message
  | EndSession string
  | GeminiHealthChat string "previous_message list"

text \<open>
  What comes back. The promise rejects, or resolves with \<open>{ data, error }\<close>: the flag
  says whether \<open>error\<close> is set. \<open>Session ms\<close> is a \<open>data\<close> whose \<open>data.messages\<close> is
  \<open>ms\<close> (\<open>None\<close>: no such field), \<open>Generated t\<close> a \<open>data\<close> whose \<open>generatedText\<close> is
  \<open>t\<close>, \<open>Null\<close> a \<open>data\<close> that is null.
\<close>

datatype payload = Null | Session "Message list option" | Generated "string option"

datatype response = Rejects | Resolves bool payload

record toast =
  title :: string
  description :: string
  destructive :: bool

text \<open>
  The suspended handlers. \<open>SendSaveUser\<close> keeps what \<open>handleSend\<close> captured and still
  reads after its first \<open>await\<close>: \<open>input\<close>, \<open>messages\<close> and \<open>sessionId\<close> of the render
  in which it was called.
\<close>

datatype task =
    InitGet string
  | InitSave
  | SendSaveUser string "Message list" string
  | SendComplete string
  | SendSaveBot
  | SendSaveError
  | EndPurge

record chatbot =
  input :: string
  messages :: "Message list"
  isLoading :: bool
  sessionId :: string
  closeChat :: bool
  closeChatCalls :: nat
  loaded :: nat
  localStorage :: "string option"
  invoked :: "invocation list"
  toasts :: "toast list"
  console :: "string list"
  tasks :: "task list"

subsection \<open>Strings\<close>

definition is_white_space :: "char \<Rightarrow> bool" where
  "is_white_space c =
     (c = CHR 0x09 \<or> c = CHR 0x0A \<or> c = CHR 0x0B \<or> c = CHR 0x0C \<or> c = CHR 0x0D
      \<or> c = CHR 0x20 \<or> c = CHR 0xA0)"

definition trim :: "string \<Rightarrow> string" where
  "trim s = rev (dropWhile is_white_space (rev (dropWhile is_white_space s)))"

fun toString :: "nat \<Rightarrow> string" where
  "toString n =
     (if n < 10 then [char_of (48 + n)]
      else toString (n div 10) @ [char_of (48 + n mod 10)])"

declare toString.simps [simp del]

subsection \<open>The context sent with a prompt\<close>

text \<open>\<open>xs.slice(-n)\<close>: the last \<open>n\<close> elements, all of them when there are fewer.\<close>

definition slice_last :: "nat \<Rightarrow> 'a list \<Rightarrow> 'a list" where
  "slice_last n xs = drop (length xs - n) xs"

definition previousMessages :: "Message list \<Rightarrow> previous_message list" where
  "previousMessages ms =
     map (\<lambda>msg. \<lparr>pm_role = role msg, pm_content = content msg\<rparr>) (slice_last 10 ms)"

subsection \<open>Handlers, up to their first await\<close>

definition log_error :: "string \<Rightarrow> chatbot \<Rightarrow> chatbot" where
  "log_error what s = s\<lparr>console := console s @ [what]\<rparr>"

definition invoke :: "invocation \<Rightarrow> chatbot \<Rightarrow> chatbot" where
  "invoke c s = s\<lparr>invoked := invoked s @ [c]\<rparr>"

definition show_toast :: "toast \<Rightarrow> chatbot \<Rightarrow> chatbot" where
  "show_toast t s = s\<lparr>toasts := toasts s @ [t]\<rparr>"

definition truthy :: "string option \<Rightarrow> bool" where
  "truthy v = (case v of None \<Rightarrow> False | Some x \<Rightarrow> x \<noteq> [])"

definition initSession :: "string \<Rightarrow> chatbot \<Rightarrow> chatbot" where
  "initSession uuid s =
     (let storedSessionId = localStorage s;
          newSessionId = (case storedSessionId of
                            None \<Rightarrow> uuid
                          | Some x \<Rightarrow> if x \<noteq> [] then x else uuid);
          s1 = (if truthy storedSessionId then s else s\<lparr>localStorage := Some newSessionId\<rparr>);
          s2 = s1\<lparr>sessionId := newSessionId\<rparr>
      in (invoke (GetSession newSessionId) s2)\<lparr>tasks := tasks s2 @ [InitGet newSessionId]\<rparr>)"

definition mount :: "string option \<Rightarrow> bool \<Rightarrow> nat \<Rightarrow> string \<Rightarrow> chatbot" where
  "mount stored closeChatProp t0 uuid =
     initSession uuid
       \<lparr>input = [], messages = initialMessages t0, isLoading = False, sessionId = [],
        closeChat = closeChatProp, closeChatCalls = 0, loaded = t0, localStorage = stored,
        invoked = [], toasts = [], console = [], tasks = []\<rparr>"

definition saveMessageToMongoDB :: "string \<Rightarrow> Message \<Rightarrow> chatbot \<Rightarrow> chatbot" where
  "saveMessageToMongoDB sid message s = invoke (SaveMessage sid message) s"

definition endChat :: "chatbot \<Rightarrow> chatbot" where
  "endChat s = (invoke (EndSession (sessionId s)) s)\<lparr>tasks := tasks s @ [EndPurge]\<rparr>"

definition handleSend :: "nat \<Rightarrow> nat \<Rightarrow> chatbot \<Rightarrow> chatbot" where
  "handleSend now ts s =
     (if trim (input s) = [] then s
      else
        let userMessage = \<lparr>msg_id = toString now, content = input s, role = User, timestamp = ts\<rparr>;
            s1 = s\<lparr>messages := messages s @ [userMessage], input := [], isLoading := True\<rparr>
        in (saveMessageToMongoDB (sessionId s) userMessage s1)
             \<lparr>tasks := tasks s @ [SendSaveUser (input s) (messages s) (sessionId s)]\<rparr>)"

definition handleSuggestedQuery :: "string \<Rightarrow> chatbot \<Rightarrow> chatbot" where
  "handleSuggestedQuery query s = s\<lparr>input := query\<rparr>"

subsection \<open>Handlers, after an await\<close>

definition error_toast :: toast where
  "error_toast =
     \<lparr>title = ''Error'', description = ''Couldn't get a response. Please try again later.'',
      destructive = True\<rparr>"

definition errorMessage :: "nat \<Rightarrow> nat \<Rightarrow> Message" where
  "errorMessage now ts =
     \<lparr>msg_id = toString (now + 1),
      content = ''I'm having trouble connecting right now. Please try again later.'',
      role = Bot, timestamp = ts\<rparr>"

definition botMessage :: "payload \<Rightarrow> nat \<Rightarrow> nat \<Rightarrow> Message" where
  "botMessage d now ts =
     \<lparr>msg_id = toString (now + 1),
      content = (case d of
                   Generated (Some t) \<Rightarrow>
                     if t \<noteq> [] then t else ''I'm sorry, I couldn't process your request.''
                 | _ \<Rightarrow> ''I'm sorry, I couldn't process your request.''),
      role = Bot, timestamp = ts\<rparr>"

text \<open>The \<open>catch\<close> of \<open>saveMessageToMongoDB\<close>: a rejected save is logged, nothing more.\<close>

definition saved :: "response \<Rightarrow> chatbot \<Rightarrow> chatbot" where
  "saved r s = (case r of Rejects \<Rightarrow> log_error ''Error saving message to MongoDB:'' s | _ \<Rightarrow> s)"

text \<open>The \<open>catch\<close> and what follows it in \<open>handleSend\<close>, up to the save of the error message.\<close>

definition send_failed :: "string \<Rightarrow> nat \<Rightarrow> nat \<Rightarrow> chatbot \<Rightarrow> chatbot" where
  "send_failed sid now ts s =
     (let s1 = show_toast error_toast (log_error ''Error getting response:'' s);
          s2 = s1\<lparr>messages := messages s1 @ [errorMessage now ts]\<rparr>
      in saveMessageToMongoDB sid (errorMessage now ts) s2)"

text \<open>
  The completion fails when the promise rejects, when \<open>error\<close> is set (the handler
  throws), and when \<open>data\<close> is null (reading \<open>data.generatedText\<close> throws).
\<close>

fun completion_failed :: "response \<Rightarrow> bool" where
  "completion_failed Rejects = True"
| "completion_failed (Resolves e d) = (e \<or> d = Null)"

text \<open>
  The \<open>else if\<close> branch of \<open>initSession\<close>, taken when the stored session has no
  messages: the initial messages are sent as one \<open>saveSession\<close>.
\<close>

definition save_initial :: "string \<Rightarrow> chatbot \<Rightarrow> chatbot \<times> task option" where
  "save_initial sid s =
     (if length (initialMessages (loaded s)) > 0
      then (invoke (SaveSession sid (initialMessages (loaded s))) s, Some InitSave)
      else (s, None))"

text \<open>
  \<open>resume t r now ts s\<close> runs the suspended handler \<open>t\<close> on the response \<open>r\<close> up to its
  next \<open>await\<close>, or to its end: it gives the new state and the task that is suspended
  next, if any.
\<close>

fun resume :: "task \<Rightarrow> response \<Rightarrow> nat \<Rightarrow> nat \<Rightarrow> chatbot \<Rightarrow> chatbot \<times> task option" where
  "resume (InitGet sid) r now ts s =
     (case r of
        Rejects \<Rightarrow> (log_error ''Error initializing chat session:'' s, None)
      | Resolves e d \<Rightarrow>
          if e then (log_error ''Error fetching session:'' s, None)
          else (case d of
                  Session (Some ms) \<Rightarrow>
                    if ms \<noteq> [] then (s\<lparr>messages := ms\<rparr>, None) else save_initial sid s
                | Session None \<Rightarrow> save_initial sid s
                | _ \<Rightarrow> (log_error ''Error initializing chat session:'' s, None)))"
| "resume InitSave r now ts s =
     (case r of
        Rejects \<Rightarrow> (log_error ''Error initializing chat session:'' s, None)
      | _ \<Rightarrow> (s, None))"
| "resume (SendSaveUser inp msgs sid) r now ts s =
     (invoke (GeminiHealthChat inp (previousMessages msgs)) (saved r s), Some (SendComplete sid))"
| "resume (SendComplete sid) r now ts s =
     (if completion_failed r then (send_failed sid now ts s, Some SendSaveError)
      else
        let d = (case r of Resolves e d \<Rightarrow> d | Rejects \<Rightarrow> Null);
            s1 = s\<lparr>messages := messages s @ [botMessage d now ts]\<rparr>
        in (saveMessageToMongoDB sid (botMessage d now ts) s1, Some SendSaveBot))"
| "resume SendSaveBot r now ts s = ((saved r s)\<lparr>isLoading := False\<rparr>, None)"
| "resume SendSaveError r now ts s = ((saved r s)\<lparr>isLoading := False\<rparr>, None)"
| "resume EndPurge r now ts s =
     (case r of
        Rejects \<Rightarrow>
          (show_toast \<lparr>title = ''Error'', description = ''Failed to end chat session properly.'',
                       destructive = True\<rparr>
             (log_error ''Error ending chat session:'' s), None)
      | Resolves e d \<Rightarrow>
          (show_toast \<lparr>title = ''Chat ended'', description = ''Your conversation has been deleted.'',
                       destructive = False\<rparr>
             (s\<lparr>localStorage := None,
                closeChatCalls := (if closeChat s then closeChatCalls s + 1 else closeChatCalls s)\<rparr>),
           None))"

subsection \<open>Events\<close>

text \<open>
  What can happen to a mounted component: the user acts on a control that is rendered
  and enabled, or an awaited promise settles. \<open>fire\<close> is \<open>None\<close> when the event cannot
  happen: the textarea and the send button carry \<open>disabled\<close> attributes, the suggested
  queries are rendered under a condition, and only a suspended task can be resumed.
\<close>

datatype event =
    Change string
  | ClickSend nat nat
  | KeyEnter nat nat
  | ClickSuggested nat
  | ClickEndChat
  | Settle nat response nat nat

definition textarea_disabled :: "chatbot \<Rightarrow> bool" where
  "textarea_disabled s = isLoading s"

definition button_disabled :: "chatbot \<Rightarrow> bool" where
  "button_disabled s = (isLoading s \<or> trim (input s) = [])"

definition suggestions_rendered :: "chatbot \<Rightarrow> bool" where
  "suggestions_rendered s = (length (messages s) \<le> 1 \<and> \<not> isLoading s)"

definition settle :: "nat \<Rightarrow> response \<Rightarrow> nat \<Rightarrow> nat \<Rightarrow> chatbot \<Rightarrow> chatbot" where
  "settle i r now ts s =
     (case resume (tasks s ! i) r now ts s of
        (s1, None) \<Rightarrow> s1\<lparr>tasks := take i (tasks s) @ drop (Suc i) (tasks s)\<rparr>
      | (s1, Some t) \<Rightarrow> s1\<lparr>tasks := (tasks s)[i := t]\<rparr>)"

fun fire :: "event \<Rightarrow> chatbot \<Rightarrow> chatbot option" where
  "fire (Change v) s = (if textarea_disabled s then None else Some (s\<lparr>input := v\<rparr>))"
| "fire (ClickSend now ts) s = (if button_disabled s then None else Some (handleSend now ts s))"
| "fire (KeyEnter now ts) s = (if textarea_disabled s then None else Some (handleSend now ts s))"
| "fire (ClickSuggested i) s =
     (if suggestions_rendered s \<and> i < length suggestedQueries
      then Some (handleSuggestedQuery (suggestedQueries ! i) s) else None)"
| "fire ClickEndChat s = Some (endChat s)"
| "fire (Settle i r now ts) s =
     (if i < length (tasks s) then Some (settle i r now ts s) else None)"

fun run :: "event list \<Rightarrow> chatbot \<Rightarrow> chatbot option" where
  "run [] s = Some s"
| "run (e # es) s = (case fire e s of None \<Rightarrow> None | Some s1 \<Rightarrow> run es s1)"

subsection \<open>Example states\<close>

text \<open>
  A component mounted with nothing stored; the same with \<open>hi\<close> typed and sent; and that
  one once the save of the user message has settled, while the completion is awaited.
\<close>

definition fresh :: chatbot where
  "fresh = mount None False 0 ''s-1''"

definition sent :: chatbot where
  "sent = handleSend 5 6 (fresh\<lparr>input := ''hi''\<rparr>)"

definition in_flight :: chatbot where
  "in_flight = settle 1 (Resolves False Null) 0 0 sent"

text \<open>A component mounted by a visitor who has a session identifier stored.\<close>

definition returning :: chatbot where
  "returning = mount (Some ''s-0'') True 7 ''s-1''"

subsection \<open>Outstanding submissions\<close>

text \<open>The suspended handlers that are a \<open>handleSend\<close> under way, and how many there are.\<close>

fun sending :: "task \<Rightarrow> bool" where
  "sending (SendSaveUser inp msgs sid) = True"
| "sending (SendComplete sid) = True"
| "sending SendSaveBot = True"
| "sending SendSaveError = True"
| "sending (InitGet sid) = False"
| "sending InitSave = False"
| "sending EndPurge = False"

definition outstanding :: "chatbot \<Rightarrow> nat" where
  "outstanding s = length (filter sending (tasks s))"

definition single_flight :: "chatbot \<Rightarrow> bool" where
  "single_flight s = (outstanding s = (if isLoading s then 1 else 0))"

subsection \<open>Counting\<close>

text \<open>
  The suspended \<open>handleSend\<close> that have not yet appended their reply (the bot message or
  the error message), and how many there are.
\<close>

fun owes_reply :: "task \<Rightarrow> bool" where
  "owes_reply (SendSaveUser inp msgs sid) = True"
| "owes_reply (SendComplete sid) = True"
| "owes_reply t = False"

definition awaited :: "chatbot \<Rightarrow> nat" where
  "awaited s = length (filter owes_reply (tasks s))"

text \<open>The event is a submission that \<open>handleSend\<close> takes up: it can fire and the input is not blank.\<close>

fun accepted :: "event \<Rightarrow> chatbot \<Rightarrow> bool" where
  "accepted (ClickSend now ts) s = (\<not> button_disabled s)"
| "accepted (KeyEnter now ts) s = (\<not> textarea_disabled s \<and> trim (input s) \<noteq> [])"
| "accepted e s = False"

text \<open>
  The event is the \<open>getSession\<close> call of \<open>initSession\<close> settling with stored messages,
  which \<open>setMessages(data.data.messages)\<close> puts in place of the transcript.
\<close>

fun loads_session :: "event \<Rightarrow> chatbot \<Rightarrow> bool" where
  "loads_session (Settle i (Resolves e (Session (Some ms))) now ts) s =
     (\<not> e \<and> ms \<noteq> [] \<and> (case tasks s ! i of InitGet sid \<Rightarrow> True | _ \<Rightarrow> False))"
| "loads_session e s = False"

text \<open>
  Along a run: how many submissions are taken up, and whether the run is free of an
  event that loads the stored session.
\<close>

fun submissions :: "event list \<Rightarrow> chatbot \<Rightarrow> nat" where
  "submissions [] s = 0"
| "submissions (e # es) s =
     (if accepted e s then 1 else 0)
     + (case fire e s of None \<Rightarrow> 0 | Some s1 \<Rightarrow> submissions es s1)"

fun keeps_transcript :: "event list \<Rightarrow> chatbot \<Rightarrow> bool" where
  "keeps_transcript [] s = True"
| "keeps_transcript (e # es) s =
     (\<not> loads_session e s
      \<and> (case fire e s of None \<Rightarrow> True | Some s1 \<Rightarrow> keeps_transcript es s1))"

subsection \<open>Hydration under way\<close>

text \<open>
  The suspended \<open>initSession\<close> that still awaits \<open>getSession\<close>; the calls that write to
  the store; and what holds of a component mounted at \<open>t0\<close> with session \<open>sid\<close>: either
  the answer to \<open>getSession\<close> has been handled, or it is awaited by one handler, the
  transcript begins with the initial messages, and it is exactly the initial messages
  unless something has been written to the store.
\<close>

fun hydrating :: "task \<Rightarrow> bool" where
  "hydrating (InitGet sid) = True"
| "hydrating t = False"

fun persists :: "invocation \<Rightarrow> bool" where
  "persists (SaveSession sid ms) = True"
| "persists (SaveMessage sid m) = True"
| "persists c = False"

definition stored_records :: "chatbot \<Rightarrow> invocation list" where
  "stored_records s = filter persists (invoked s)"

definition seeded :: "nat \<Rightarrow> string \<Rightarrow> chatbot \<Rightarrow> bool" where
  "seeded t0 sid s =
     (loaded s = t0
      \<and> (filter hydrating (tasks s) = []
          \<or> filter hydrating (tasks s) = [InitGet sid]
            \<and> take (length (initialMessages t0)) (messages s) = initialMessages t0
            \<and> (stored_records s \<noteq> [] \<or> messages s = initialMessages t0)))"


text \<open>
  A first turn during which the empty session is answered and its \<open>saveSession\<close>
  rejects, the chat is ended while the reply is being saved, and a second turn whose
  completion rejects.
\<close>

definition mixed_run :: "event list" where
  "mixed_run =
     [Change ''hi'', ClickSend 5 6,
      Settle 0 (Resolves False (Session None)) 0 0,
      Settle 1 (Resolves False Null) 0 0,
      Settle 0 Rejects 0 0,
      Settle 0 (Resolves False (Generated (Some ''ok''))) 9 10,
      ClickEndChat,
      Settle 0 (Resolves False Null) 0 0,
      Change ''more'', KeyEnter 20 21,
      Settle 1 Rejects 0 0,
      Settle 1 Rejects 30 31,
      Settle 1 (Resolves False Null) 0 0]"

section \<open>Properties\<close>

subsection \<open>Auxiliary facts\<close>

lemmas handler_defs =
  mount_def initSession_def truthy_def invoke_def log_error_def show_toast_def
  saveMessageToMongoDB_def endChat_def handleSend_def handleSuggestedQuery_def
  saved_def send_failed_def save_initial_def settle_def
  textarea_disabled_def button_disabled_def suggestions_rendered_def
  trim_def is_white_space_def Let_def




lemma saved_fields [simp]:
  "messages (saved r s) = messages s" "invoked (saved r s) = invoked s"
  "toasts (saved r s) = toasts s" "isLoading (saved r s) = isLoading s"
  "input (saved r s) = input s" "tasks (saved r s) = tasks s"
  "sessionId (saved r s) = sessionId s" "localStorage (saved r s) = localStorage s"
  by (cases r; simp add: saved_def log_error_def)+

lemma handleSend_accepts:
  "trim (input s) \<noteq> [] \<Longrightarrow>
   handleSend now ts s =
     s\<lparr>messages := messages s
          @ [\<lparr>msg_id = toString now, content = input s, role = User, timestamp = ts\<rparr>],
       input := [], isLoading := True,
       invoked := invoked s @ [SaveMessage (sessionId s)
                     \<lparr>msg_id = toString now, content = input s, role = User, timestamp = ts\<rparr>],
       tasks := tasks s @ [SendSaveUser (input s) (messages s) (sessionId s)]\<rparr>"
  by (simp add: handleSend_def saveMessageToMongoDB_def invoke_def Let_def)

lemma settle_SendSaveUser:
  "i < length (tasks s) \<Longrightarrow> tasks s ! i = SendSaveUser inp msgs sid \<Longrightarrow>
   settle i r now ts s =
     (saved r s)\<lparr>invoked := invoked s @ [GeminiHealthChat inp (previousMessages msgs)],
                 tasks := (tasks s)[i := SendComplete sid]\<rparr>"
  by (cases r) (simp_all add: settle_def saved_def invoke_def log_error_def)

lemma settle_SendComplete_failed:
  "i < length (tasks s) \<Longrightarrow> tasks s ! i = SendComplete sid \<Longrightarrow> completion_failed r \<Longrightarrow>
   settle i r now ts s =
     s\<lparr>console := console s @ [''Error getting response:''],
       toasts := toasts s @ [error_toast],
       messages := messages s @ [errorMessage now ts],
       invoked := invoked s @ [SaveMessage sid (errorMessage now ts)],
       tasks := (tasks s)[i := SendSaveError]\<rparr>"
  by (simp add: settle_def send_failed_def saveMessageToMongoDB_def invoke_def log_error_def
        show_toast_def Let_def)

lemma settle_SendComplete_ok:
  "i < length (tasks s) \<Longrightarrow> tasks s ! i = SendComplete sid \<Longrightarrow> \<not> completion_failed r \<Longrightarrow>
   \<exists>d. r = Resolves False d \<and> d \<noteq> Null \<and>
     settle i r now ts s =
       s\<lparr>messages := messages s @ [botMessage d now ts],
         invoked := invoked s @ [SaveMessage sid (botMessage d now ts)],
         tasks := (tasks s)[i := SendSaveBot]\<rparr>"
  by (cases r) (simp_all add: settle_def saveMessageToMongoDB_def invoke_def Let_def)

lemma settle_finally:
  "i < length (tasks s) \<Longrightarrow> tasks s ! i = SendSaveBot \<or> tasks s ! i = SendSaveError \<Longrightarrow>
   settle i r now ts s =
     (saved r s)\<lparr>isLoading := False, tasks := take i (tasks s) @ drop (Suc i) (tasks s)\<rparr>"
  by (cases r) (auto simp add: settle_def saved_def log_error_def)

lemma tasks_sent: "tasks sent = [InitGet ''s-1'', SendSaveUser ''hi'' (initialMessages 0) ''s-1'']"
  by (simp add: sent_def fresh_def handler_defs)

lemma tasks_in_flight: "tasks in_flight = [InitGet ''s-1'', SendComplete ''s-1'']"
  by (simp add: in_flight_def settle_SendSaveUser tasks_sent)

subsection \<open>Blank input\<close>

text \<open>
  C9. When the input is empty after trimming, \<open>handleSend\<close> changes nothing: no message
  is appended, nothing is invoked, the component does not start loading. The send button
  is disabled then, and Enter in the textarea leaves the state as it is.
\<close>

theorem blank_input_ignored:
  assumes "trim (input s) = []"
  shows "handleSend now ts s = s
         \<and> fire (ClickSend now ts) s = None
         \<and> fire (KeyEnter now ts) s = (if isLoading s then None else Some s)"
  using assms by (simp add: handleSend_def button_disabled_def textarea_disabled_def)

theorem blank_input_ignored_witness:
  "trim (input (fresh\<lparr>input := ''   ''\<rparr>)) = []
   \<and> handleSend 5 6 (fresh\<lparr>input := ''   ''\<rparr>) = fresh\<lparr>input := ''   ''\<rparr>
   \<and> fire (ClickSend 5 6) (fresh\<lparr>input := ''   ''\<rparr>) = None
   \<and> fire (KeyEnter 5 6) (fresh\<lparr>input := ''   ''\<rparr>) = Some (fresh\<lparr>input := ''   ''\<rparr>)"
proof -
  have h: "trim (input (fresh\<lparr>input := ''   ''\<rparr>)) = []"
    by (simp add: trim_def is_white_space_def)
  have l: "\<not> isLoading (fresh\<lparr>input := ''   ''\<rparr>)"
    by (simp add: fresh_def handler_defs)
  show ?thesis
    using h l blank_input_ignored [OF h, of 5 6] by simp
qed

subsection \<open>Suggested queries\<close>

text \<open>
  C10. Choosing a suggested query puts its text into the input and does nothing else:
  the transcript, the calls made, the suspended handlers and the loading flag are as
  before. A suggested query can be chosen only while the transcript has at most one
  message and nothing is loading.
\<close>

theorem suggested_query_only_fills_input:
  assumes "fire (ClickSuggested i) s = Some s'"
  shows "s' = s\<lparr>input := suggestedQueries ! i\<rparr>
         \<and> i < 3 \<and> length (messages s) \<le> 1 \<and> \<not> isLoading s
         \<and> messages s' = messages s \<and> invoked s' = invoked s \<and> tasks s' = tasks s
         \<and> isLoading s' = isLoading s"
  using assms
  by (auto simp add: suggestions_rendered_def handleSuggestedQuery_def suggestedQueries_def
           split: if_splits)

theorem suggested_query_only_fills_input_witness:
  "fire (ClickSuggested 1) fresh =
     Some (fresh\<lparr>input := ''Are Ayurvedic remedies effective for digestive issues?''\<rparr>)
   \<and> length (messages fresh) \<le> 1 \<and> \<not> isLoading fresh
   \<and> invoked (fresh\<lparr>input := ''Are Ayurvedic remedies effective for digestive issues?''\<rparr>)
       = invoked fresh"
proof -
  have h: "fire (ClickSuggested 1) fresh =
     Some (fresh\<lparr>input := ''Are Ayurvedic remedies effective for digestive issues?''\<rparr>)"
    by (simp add: fresh_def handler_defs initialMessages_def suggestedQueries_def)
  show ?thesis
    using h suggested_query_only_fills_input [OF h] by simp
qed

subsection \<open>A failed completion\<close>

text \<open>
  C5. When the completion fails, one message is appended to the transcript: the fixed
  error message, with the role of the assistant. It is sent to the store with
  \<open>saveMessage\<close>, and the error toast is shown. Once that save has settled, whatever
  its outcome, nothing more has been appended, the component is no longer loading, and
  a text that is not blank can be typed and sent at once.
\<close>

theorem completion_failure_recovered:
  fixes s :: chatbot and i now ts now' ts' :: nat and r r' :: response
  assumes "i < length (tasks s)" and "tasks s ! i = SendComplete sid" and "completion_failed r"
  defines "s1 \<equiv> settle i r now ts s"
  defines "s2 \<equiv> settle i r' now' ts' s1"
  shows "messages s1 = messages s @ [errorMessage now ts]
         \<and> role (errorMessage now ts) = Bot
         \<and> content (errorMessage now ts) =
             ''I'm having trouble connecting right now. Please try again later.''
         \<and> invoked s1 = invoked s @ [SaveMessage sid (errorMessage now ts)]
         \<and> toasts s1 = toasts s @ [error_toast]
         \<and> messages s2 = messages s1 \<and> invoked s2 = invoked s1
         \<and> \<not> isLoading s2 \<and> \<not> textarea_disabled s2
         \<and> (trim v \<noteq> [] \<longrightarrow>
              (\<exists>s3. run [Change v, ClickSend n t] s2 = Some s3 \<and> isLoading s3
                    \<and> messages s3 = messages s2
                        @ [\<lparr>msg_id = toString n, content = v, role = User, timestamp = t\<rparr>]))"
proof -
  have s1: "s1 = s\<lparr>console := console s @ [''Error getting response:''],
       toasts := toasts s @ [error_toast],
       messages := messages s @ [errorMessage now ts],
       invoked := invoked s @ [SaveMessage sid (errorMessage now ts)],
       tasks := (tasks s)[i := SendSaveError]\<rparr>"
    unfolding s1_def using assms(1-3) by (rule settle_SendComplete_failed)
  have i1: "i < length (tasks s1)" and t1: "tasks s1 ! i = SendSaveError"
    using assms(1) by (simp_all add: s1)
  have s2: "s2 = (saved r' s1)\<lparr>isLoading := False,
                                tasks := take i (tasks s1) @ drop (Suc i) (tasks s1)\<rparr>"
    unfolding s2_def using i1 t1 by (simp add: settle_finally)
  have a: "messages s1 = messages s @ [errorMessage now ts]"
    and b: "invoked s1 = invoked s @ [SaveMessage sid (errorMessage now ts)]"
    and c: "toasts s1 = toasts s @ [error_toast]"
    by (simp_all add: s1)
  have d: "messages s2 = messages s1" "invoked s2 = invoked s1" "\<not> isLoading s2"
    by (simp_all add: s2)
  have e: "trim v \<noteq> [] \<Longrightarrow>
           run [Change v, ClickSend n t] s2 = Some (handleSend n t (s2\<lparr>input := v\<rparr>))"
    using d(3) by (simp add: textarea_disabled_def button_disabled_def)
  have f: "trim v \<noteq> [] \<Longrightarrow> isLoading (handleSend n t (s2\<lparr>input := v\<rparr>))
        \<and> messages (handleSend n t (s2\<lparr>input := v\<rparr>)) = messages s2
                        @ [\<lparr>msg_id = toString n, content = v, role = User, timestamp = t\<rparr>]"
    by (simp add: handleSend_accepts)
  show ?thesis
    using a b c d e f by (simp add: errorMessage_def textarea_disabled_def)
qed

theorem completion_failure_recovered_witness:
  "1 < length (tasks in_flight) \<and> tasks in_flight ! 1 = SendComplete ''s-1''
   \<and> completion_failed Rejects \<and> trim ''again'' \<noteq> []
   \<and> messages (settle 1 Rejects 9 9 in_flight) = messages in_flight @ [errorMessage 9 9]
   \<and> \<not> isLoading (settle 1 (Resolves True Null) 0 0 (settle 1 Rejects 9 9 in_flight))
   \<and> (\<exists>s3. run [Change ''again'', ClickSend 20 21]
               (settle 1 (Resolves True Null) 0 0 (settle 1 Rejects 9 9 in_flight)) = Some s3
            \<and> isLoading s3)"
proof -
  have h1: "1 < length (tasks in_flight)" and h2: "tasks in_flight ! 1 = SendComplete ''s-1''"
    by (simp_all add: tasks_in_flight)
  have h3: "completion_failed Rejects" by simp
  have h4: "trim ''again'' \<noteq> []" by (simp add: trim_def is_white_space_def)
  show ?thesis
    using h1 h2 h3 h4
      completion_failure_recovered [OF h1 h2 h3, of 9 9 "Resolves True Null" 0 0 "''again''" 20 21]
    by blast
qed

lemma run_in_flight:
  "run [Change ''hi'', ClickSend 5 6, Settle 1 (Resolves False Null) 0 0] fresh = Some in_flight"
  by (simp add: in_flight_def sent_def fresh_def handler_defs)

lemma last_previousMessages:
  "ms \<noteq> [] \<Longrightarrow>
   last (previousMessages ms) = \<lparr>pm_role = role (last ms), pm_content = content (last ms)\<rparr>"
proof -
  assume ne: "ms \<noteq> []"
  then have "0 < length ms" by simp
  then have lt: "length ms - 10 < length ms" by arith
  then have d: "drop (length ms - 10) ms \<noteq> []" by simp
  have "last (drop (length ms - 10) ms) = last ms"
    using lt by (rule last_drop)
  then show ?thesis
    using d by (simp add: previousMessages_def slice_last_def last_map)
qed

lemma count_update:
  assumes "i < length xs" and "P t = P (xs ! i)"
  shows "length (filter P (xs[i := t])) = length (filter P xs)"
proof -
  have "xs[i := t] = take i xs @ t # drop (Suc i) xs"
    using assms(1) by (rule upd_conv_take_nth_drop)
  moreover have "xs = take i xs @ xs ! i # drop (Suc i) xs"
    using assms(1) by (rule id_take_nth_drop)
  ultimately have "length (filter P (xs[i := t])) = length (filter P (take i xs @ t # drop (Suc i) xs))"
    and "length (filter P xs) = length (filter P (take i xs @ xs ! i # drop (Suc i) xs))"
    by simp_all
  then show ?thesis using assms(2) by simp
qed

lemma count_remove:
  assumes "i < length xs"
  shows "length (filter P (take i xs @ drop (Suc i) xs)) =
         length (filter P xs) - (if P (xs ! i) then 1 else 0)"
proof -
  have "xs = take i xs @ xs ! i # drop (Suc i) xs"
    using assms by (rule id_take_nth_drop)
  then have "length (filter P xs) = length (filter P (take i xs @ xs ! i # drop (Suc i) xs))"
    by simp
  then show ?thesis by simp
qed

lemma resume_tasks: "tasks (fst (resume t r now ts s)) = tasks s"
  by (cases t; cases r)
     (auto simp add: handler_defs split: payload.splits option.splits)

lemma resume_sending:
  assumes "sending t"
  shows "case snd (resume t r now ts s) of
           None \<Rightarrow> \<not> isLoading (fst (resume t r now ts s))
         | Some t' \<Rightarrow> sending t' \<and> isLoading (fst (resume t r now ts s)) = isLoading s"
  using assms
  by (cases t; cases r) (auto simp add: handler_defs)

lemma resume_other:
  assumes "\<not> sending t"
  shows "isLoading (fst (resume t r now ts s)) = isLoading s
         \<and> (case snd (resume t r now ts s) of None \<Rightarrow> True | Some t' \<Rightarrow> \<not> sending t')"
  using assms
  by (cases t; cases r)
     (auto simp add: handler_defs split: payload.splits option.splits)

lemma settle_None:
  "snd (resume (tasks s ! i) r now ts s) = None \<Longrightarrow>
   settle i r now ts s =
     (fst (resume (tasks s ! i) r now ts s))\<lparr>tasks := take i (tasks s) @ drop (Suc i) (tasks s)\<rparr>"
  by (cases "resume (tasks s ! i) r now ts s") (simp add: settle_def)

lemma settle_Some:
  "snd (resume (tasks s ! i) r now ts s) = Some t \<Longrightarrow>
   settle i r now ts s = (fst (resume (tasks s ! i) r now ts s))\<lparr>tasks := (tasks s)[i := t]\<rparr>"
  by (cases "resume (tasks s ! i) r now ts s") (simp add: settle_def)

lemma settle_single_flight:
  assumes "single_flight s" and "i < length (tasks s)"
  shows "single_flight (settle i r now ts s)"
proof (cases "sending (tasks s ! i)")
  case True
  then have pos: "outstanding s \<noteq> 0"
    using assms(2) by (auto simp add: outstanding_def filter_empty_conv)
  with assms(1) have one: "outstanding s = 1" and load: "isLoading s"
    by (auto simp add: single_flight_def split: if_splits)
  show ?thesis
  proof (cases "snd (resume (tasks s ! i) r now ts s)")
    case None
    with resume_sending [OF True, of r now ts s]
    have "\<not> isLoading (fst (resume (tasks s ! i) r now ts s))" by simp
    moreover have "length (filter sending (take i (tasks s) @ drop (Suc i) (tasks s))) = 0"
      using count_remove [OF assms(2), of sending] True one by (simp add: outstanding_def)
    ultimately show ?thesis
      by (simp add: single_flight_def outstanding_def settle_None [OF None])
  next
    case (Some t')
    with resume_sending [OF True, of r now ts s]
    have "sending t'" and "isLoading (fst (resume (tasks s ! i) r now ts s))"
      using load by simp_all
    moreover have "length (filter sending ((tasks s)[i := t'])) = 1"
      using count_update [OF assms(2), of sending t'] True one \<open>sending t'\<close>
      by (simp add: outstanding_def)
    ultimately show ?thesis
      by (simp add: single_flight_def outstanding_def settle_Some [OF Some])
  qed
next
  case False
  have keep: "isLoading (fst (resume (tasks s ! i) r now ts s)) = isLoading s"
    using resume_other [OF False] by simp
  show ?thesis
  proof (cases "snd (resume (tasks s ! i) r now ts s)")
    case None
    have "length (filter sending (take i (tasks s) @ drop (Suc i) (tasks s))) = outstanding s"
      using count_remove [OF assms(2), of sending] False by (simp add: outstanding_def)
    then show ?thesis
      using keep assms(1)
      by (simp add: single_flight_def outstanding_def settle_None [OF None])
  next
    case (Some t')
    with resume_other [OF False, of r now ts s] have "\<not> sending t'" by simp
    then have "length (filter sending ((tasks s)[i := t'])) = outstanding s"
      using count_update [OF assms(2), of sending t'] False by (simp add: outstanding_def)
    then show ?thesis
      using keep assms(1)
      by (simp add: single_flight_def outstanding_def settle_Some [OF Some])
  qed
qed

lemma handleSend_single_flight:
  assumes "single_flight s" and "\<not> isLoading s"
  shows "single_flight (handleSend now ts s)"
  using assms
  by (cases "trim (input s) = []")
     (simp_all add: handleSend_accepts single_flight_def outstanding_def, simp add: handleSend_def)

lemma fire_single_flight:
  assumes "single_flight s" and "fire e s = Some s'"
  shows "single_flight s'"
proof (cases e)
  case (Change v)
  with assms show ?thesis
    by (auto simp add: single_flight_def outstanding_def split: if_splits)
next
  case (ClickSend now ts)
  with assms handleSend_single_flight [of s now ts] show ?thesis
    by (auto simp add: button_disabled_def split: if_splits)
next
  case (KeyEnter now ts)
  with assms handleSend_single_flight [of s now ts] show ?thesis
    by (auto simp add: textarea_disabled_def split: if_splits)
next
  case (ClickSuggested i)
  with assms show ?thesis
    by (auto simp add: single_flight_def outstanding_def handleSuggestedQuery_def split: if_splits)
next
  case ClickEndChat
  with assms show ?thesis
    by (auto simp add: single_flight_def outstanding_def endChat_def invoke_def)
next
  case (Settle i r now ts)
  with assms settle_single_flight [of s i r now ts] show ?thesis
    by (auto split: if_splits)
qed

lemma run_single_flight:
  "single_flight s \<Longrightarrow> run es s = Some s' \<Longrightarrow> single_flight s'"
proof (induction es arbitrary: s)
  case Nil
  then show ?case by simp
next
  case (Cons e es)
  then show ?case
    by (auto split: option.splits dest: fire_single_flight)
qed

lemma mount_single_flight: "single_flight (mount stored cc t0 uuid)"
  by (simp add: single_flight_def outstanding_def handler_defs)

subsection \<open>One submission at a time\<close>

text \<open>
  C6. In every state the component can reach after it is mounted, at most one
  \<open>handleSend\<close> is under way. While one is, the textarea and the send button are
  disabled, so a second submission is refused: neither a click on the button nor Enter
  in the textarea can happen. A submission that is accepted therefore finds none under
  way: no reply is awaited then, and (unless the input is blank, when nothing happens)
  the handler captures the transcript as it is at that moment.
\<close>

theorem one_completion_at_a_time:
  assumes "run es (mount stored cc t0 uuid) = Some s"
  shows "outstanding s \<le> 1
         \<and> (outstanding s = 1 \<longrightarrow>
              textarea_disabled s \<and> button_disabled s
              \<and> fire (ClickSend now ts) s = None \<and> fire (KeyEnter now ts) s = None)
         \<and> (fire (ClickSend now ts) s = Some s' \<or> fire (KeyEnter now ts) s = Some s' \<longrightarrow>
              outstanding s = 0
              \<and> (s' = s \<or> outstanding s' = 1
                   \<and> last (tasks s') = SendSaveUser (input s) (messages s) (sessionId s)))"
proof -
  have inv: "single_flight s"
    using mount_single_flight assms by (rule run_single_flight)
  have a: "outstanding s \<le> 1"
    using inv by (simp add: single_flight_def split: if_splits)
  have b: "outstanding s = 1 \<Longrightarrow> isLoading s"
    using inv by (simp add: single_flight_def split: if_splits)
  have c: "\<not> isLoading s \<Longrightarrow> outstanding s = 0"
    using inv by (simp add: single_flight_def)
  have d: "\<not> isLoading s \<Longrightarrow> handleSend now ts s = s \<or>
             outstanding (handleSend now ts s) = 1
             \<and> last (tasks (handleSend now ts s)) = SendSaveUser (input s) (messages s) (sessionId s)"
    using c by (cases "trim (input s) = []")
               (simp_all add: handleSend_accepts outstanding_def, simp add: handleSend_def)
  show ?thesis
    using a b c d
    by (auto simp add: textarea_disabled_def button_disabled_def split: if_splits)
qed

theorem one_completion_at_a_time_witness:
  "run [Change ''hi'', ClickSend 5 6, Settle 1 (Resolves False Null) 0 0]
       (mount None False 0 ''s-1'') = Some in_flight
   \<and> outstanding in_flight = 1
   \<and> fire (ClickSend 7 8) in_flight = None \<and> fire (KeyEnter 7 8) in_flight = None"
proof -
  have h: "run [Change ''hi'', ClickSend 5 6, Settle 1 (Resolves False Null) 0 0]
             (mount None False 0 ''s-1'') = Some in_flight"
    using run_in_flight unfolding fresh_def .
  have o: "outstanding in_flight = 1"
    by (simp add: outstanding_def tasks_in_flight)
  show ?thesis
    using h o one_completion_at_a_time [OF h, of 7 8] by blast
qed

subsection \<open>What the context holds when a message is sent\<close>

text \<open>
  C1, as stated, fails. With \<open>hi\<close> sent from a fresh component, the transcript ends
  with the user's message when the completion is called, but the context sent with the
  call is the greeting alone: it does not hold the message just submitted.
\<close>

theorem context_excludes_submitted_message:
  "run [Change ''hi'', ClickSend 5 6, Settle 1 (Resolves False Null) 0 0] fresh = Some in_flight
   \<and> last (messages in_flight) = \<lparr>msg_id = toString 5, content = ''hi'', role = User, timestamp = 6\<rparr>
   \<and> last (invoked in_flight) = GeminiHealthChat ''hi'' (previousMessages (initialMessages 0))
   \<and> \<lparr>pm_role = User, pm_content = ''hi''\<rparr> \<notin> set (previousMessages (initialMessages 0))
   \<and> pm_role (last (previousMessages (initialMessages 0))) = Bot"
proof -
  have a: "messages sent = initialMessages 0 @ [\<lparr>msg_id = toString 5, content = ''hi'', role = User, timestamp = 6\<rparr>]"
    by (simp add: sent_def fresh_def handler_defs)
  have b: "1 < length (tasks sent)" "tasks sent ! 1 = SendSaveUser ''hi'' (initialMessages 0) ''s-1''"
    by (simp_all add: tasks_sent)
  have c: "in_flight = (saved (Resolves False Null) sent)\<lparr>invoked := invoked sent @ [GeminiHealthChat ''hi'' (previousMessages (initialMessages 0))],
                 tasks := (tasks sent)[1 := SendComplete ''s-1'']\<rparr>"
    unfolding in_flight_def using b by (rule settle_SendSaveUser)
  have d: "previousMessages (initialMessages 0) = [\<lparr>pm_role = Bot, pm_content = content (hd (initialMessages 0))\<rparr>]"
    by (simp add: previousMessages_def slice_last_def initialMessages_def)
  show ?thesis
    using run_in_flight by (simp add: c a d)
qed

text \<open>
  C1, amended. A submission that is accepted appends the user's message to the
  transcript and sends it to the store before the completion is called. The context
  sent with the call is built from the transcript the handler captured, the one before
  that message was appended: it ends with the last message of that transcript, and the
  text just submitted goes as the prompt.
\<close>

theorem context_is_transcript_before_submission:
  fixes s :: chatbot and now ts now' ts' :: nat and r :: response
  assumes "\<not> button_disabled s"
  defines "userMessage \<equiv> \<lparr>msg_id = toString now, content = input s, role = User, timestamp = ts\<rparr>"
  defines "s1 \<equiv> handleSend now ts s"
  defines "s2 \<equiv> settle (length (tasks s)) r now' ts' s1"
  shows "fire (ClickSend now ts) s = Some s1
         \<and> messages s1 = messages s @ [userMessage]
         \<and> invoked s1 = invoked s @ [SaveMessage (sessionId s) userMessage]
         \<and> messages s2 = messages s @ [userMessage]
         \<and> invoked s2 = invoked s1 @ [GeminiHealthChat (input s) (previousMessages (messages s))]
         \<and> (messages s \<noteq> [] \<longrightarrow>
              last (previousMessages (messages s)) =
                \<lparr>pm_role = role (last (messages s)), pm_content = content (last (messages s))\<rparr>)"
proof -
  from assms(1) have nb: "trim (input s) \<noteq> []"
    by (simp add: button_disabled_def)
  have s1: "s1 = s\<lparr>messages := messages s @ [userMessage],
       input := [], isLoading := True,
       invoked := invoked s @ [SaveMessage (sessionId s) userMessage],
       tasks := tasks s @ [SendSaveUser (input s) (messages s) (sessionId s)]\<rparr>"
    unfolding s1_def userMessage_def using nb by (rule handleSend_accepts)
  have i: "length (tasks s) < length (tasks s1)"
    and t: "tasks s1 ! length (tasks s) = SendSaveUser (input s) (messages s) (sessionId s)"
    by (simp_all add: s1)
  have s2: "s2 = (saved r s1)\<lparr>invoked := invoked s1 @ [GeminiHealthChat (input s) (previousMessages (messages s))],
                 tasks := (tasks s1)[length (tasks s) := SendComplete (sessionId s)]\<rparr>"
    unfolding s2_def using i t by (rule settle_SendSaveUser)
  have a: "fire (ClickSend now ts) s = Some s1"
    using assms(1) by (simp add: s1_def)
  have b: "messages s1 = messages s @ [userMessage]"
    "invoked s1 = invoked s @ [SaveMessage (sessionId s) userMessage]"
    by (simp_all add: s1)
  have c: "messages s2 = messages s @ [userMessage]"
    "invoked s2 = invoked s1 @ [GeminiHealthChat (input s) (previousMessages (messages s))]"
    by (simp_all add: s2 b)
  show ?thesis
    using a b c last_previousMessages by simp
qed

theorem context_is_transcript_before_submission_witness:
  "\<not> button_disabled (fresh\<lparr>input := ''hi''\<rparr>)
   \<and> fire (ClickSend 5 6) (fresh\<lparr>input := ''hi''\<rparr>) = Some sent
   \<and> messages in_flight = messages fresh
        @ [\<lparr>msg_id = toString 5, content = ''hi'', role = User, timestamp = 6\<rparr>]
   \<and> invoked in_flight = invoked sent
        @ [GeminiHealthChat ''hi'' (previousMessages (messages fresh))]"
proof -
  have h: "\<not> button_disabled (fresh\<lparr>input := ''hi''\<rparr>)"
    by (simp add: fresh_def handler_defs)
  have l: "length (tasks (fresh\<lparr>input := ''hi''\<rparr>)) = 1"
    by (simp add: fresh_def handler_defs)
  show ?thesis
    using h l context_is_transcript_before_submission [OF h, of 5 6 "Resolves False Null" 0 0]
    by (simp add: sent_def in_flight_def)
qed

subsection \<open>Further auxiliary facts\<close>

lemma settle_EndPurge_resolves:
  "j < length (tasks s) \<Longrightarrow> tasks s ! j = EndPurge \<Longrightarrow>
   settle j (Resolves e d) now ts s =
     s\<lparr>localStorage := None,
       closeChatCalls := (if closeChat s then closeChatCalls s + 1 else closeChatCalls s),
       toasts := toasts s @ [\<lparr>title = ''Chat ended'',
                               description = ''Your conversation has been deleted.'',
                               destructive = False\<rparr>],
       tasks := take j (tasks s) @ drop (Suc j) (tasks s)\<rparr>"
  by (simp add: settle_def show_toast_def)

lemma settle_EndPurge_rejects:
  "j < length (tasks s) \<Longrightarrow> tasks s ! j = EndPurge \<Longrightarrow>
   settle j Rejects now ts s =
     s\<lparr>console := console s @ [''Error ending chat session:''],
       toasts := toasts s @ [\<lparr>title = ''Error'',
                               description = ''Failed to end chat session properly.'',
                               destructive = True\<rparr>],
       tasks := take j (tasks s) @ drop (Suc j) (tasks s)\<rparr>"
  by (simp add: settle_def show_toast_def log_error_def)

lemma mount_nothing_stored:
  "sessionId (mount None cc t0 uuid) = uuid \<and> localStorage (mount None cc t0 uuid) = Some uuid"
  by (simp add: handler_defs)

lemma endChat_fields:
  "endChat s = s\<lparr>invoked := invoked s @ [EndSession (sessionId s)], tasks := tasks s @ [EndPurge]\<rparr>"
  by (simp add: endChat_def invoke_def)


lemma count_replace:
  assumes "i < length xs"
  shows "length (filter P (xs[i := t])) + (if P (xs ! i) then 1 else 0) =
         length (filter P xs) + (if P t then 1 else 0)"
proof -
  have "xs[i := t] = take i xs @ t # drop (Suc i) xs"
    using assms by (rule upd_conv_take_nth_drop)
  moreover have "xs = take i xs @ xs ! i # drop (Suc i) xs"
    using assms by (rule id_take_nth_drop)
  ultimately have "length (filter P (xs[i := t])) = length (filter P (take i xs @ t # drop (Suc i) xs))"
    and "length (filter P xs) = length (filter P (take i xs @ xs ! i # drop (Suc i) xs))"
    by simp_all
  then show ?thesis by simp
qed

lemma count_drop:
  assumes "i < length xs"
  shows "length (filter P (take i xs @ drop (Suc i) xs)) + (if P (xs ! i) then 1 else 0) =
         length (filter P xs)"
proof -
  have "xs = take i xs @ xs ! i # drop (Suc i) xs"
    using assms by (rule id_take_nth_drop)
  then have "length (filter P xs) = length (filter P (take i xs @ xs ! i # drop (Suc i) xs))"
    by simp
  then show ?thesis by simp
qed

text \<open>What a resumed handler adds to the transcript, and whether a reply is still owed.\<close>

lemma resume_balance:
  assumes "\<not> loads_session (Settle i r now ts) s" and "tasks s ! i = t"
  shows "length (messages (fst (resume t r now ts s)))
           + (case snd (resume t r now ts s) of None \<Rightarrow> 0
              | Some t' \<Rightarrow> if owes_reply t' then 1 else 0)
         = length (messages s) + (if owes_reply t then 1 else 0)"
proof (cases t)
  case (InitGet sid)
  show ?thesis
  proof (cases r)
    case Rejects
    then show ?thesis using InitGet by (simp add: log_error_def)
  next
    case (Resolves e d)
    show ?thesis
    proof (cases d)
      case (Session m)
      show ?thesis
      proof (cases m)
        case None
        then show ?thesis
          using InitGet Resolves Session by (simp add: log_error_def save_initial_def invoke_def)
      next
        case (Some ms)
        then show ?thesis
          using InitGet Resolves Session assms
          by (auto simp add: log_error_def save_initial_def invoke_def)
      qed
    qed (use InitGet Resolves in \<open>simp_all add: log_error_def\<close>)
  qed
next
  case (SendComplete sid)
  then show ?thesis
    by (cases r) (simp_all add: send_failed_def saveMessageToMongoDB_def invoke_def
                    show_toast_def log_error_def Let_def)
next
  case EndPurge
  then show ?thesis by (cases r) (simp_all add: show_toast_def log_error_def)
next
  case InitSave
  then show ?thesis by (cases r) (simp_all add: log_error_def)
qed (simp_all add: invoke_def)

lemma settle_balance:
  assumes "i < length (tasks s)" and "\<not> loads_session (Settle i r now ts) s"
  shows "length (messages (settle i r now ts s)) + awaited (settle i r now ts s)
         = length (messages s) + awaited s"
proof (cases "snd (resume (tasks s ! i) r now ts s)")
  case None
  from resume_balance [OF assms(2) refl] None
  have "length (messages (fst (resume (tasks s ! i) r now ts s)))
        = length (messages s) + (if owes_reply (tasks s ! i) then 1 else 0)"
    by simp
  moreover have "length (filter owes_reply (take i (tasks s) @ drop (Suc i) (tasks s)))
        + (if owes_reply (tasks s ! i) then 1 else 0) = awaited s"
    unfolding awaited_def using assms(1) by (rule count_drop)
  ultimately show ?thesis
    by (simp add: settle_None [OF None] awaited_def)
next
  case (Some t')
  from resume_balance [OF assms(2) refl] Some
  have "length (messages (fst (resume (tasks s ! i) r now ts s)))
          + (if owes_reply t' then 1 else 0)
        = length (messages s) + (if owes_reply (tasks s ! i) then 1 else 0)"
    by simp
  moreover have "length (filter owes_reply ((tasks s)[i := t']))
        + (if owes_reply (tasks s ! i) then 1 else 0) = awaited s + (if owes_reply t' then 1 else 0)"
    unfolding awaited_def using assms(1) by (rule count_replace)
  ultimately show ?thesis
    by (simp add: settle_Some [OF Some] awaited_def split: if_splits)
qed

lemma handleSend_balance:
  "length (messages (handleSend now ts s)) + awaited (handleSend now ts s)
   = length (messages s) + awaited s + (if trim (input s) = [] then 0 else 2)"
  by (cases "trim (input s) = []")
     (simp add: handleSend_def, simp add: handleSend_accepts awaited_def)

lemma fire_balance:
  assumes "fire e s = Some s'" and "\<not> loads_session e s"
  shows "length (messages s') + awaited s'
         = length (messages s) + awaited s + (if accepted e s then 2 else 0)"
proof (cases e)
  case (Settle i r now ts)
  with assms settle_balance [of i s r now ts] show ?thesis
    by (auto split: if_splits)
next
  case (ClickSend now ts)
  with assms(1) handleSend_balance [of now ts s] show ?thesis
    by (auto simp add: button_disabled_def split: if_splits)
next
  case (KeyEnter now ts)
  with assms(1) handleSend_balance [of now ts s] show ?thesis
    by (auto simp add: textarea_disabled_def split: if_splits)
next
  case (Change v)
  with assms(1) show ?thesis by (auto simp add: awaited_def split: if_splits)
next
  case (ClickSuggested i)
  with assms(1) show ?thesis
    by (auto simp add: awaited_def handleSuggestedQuery_def split: if_splits)
next
  case ClickEndChat
  with assms(1) show ?thesis by (auto simp add: awaited_def endChat_def invoke_def)
qed

lemma run_balance:
  "run es s = Some s' \<Longrightarrow> keeps_transcript es s \<Longrightarrow>
   length (messages s') + awaited s'
   = length (messages s) + awaited s + 2 * submissions es s"
proof (induction es arbitrary: s)
  case Nil
  then show ?case by simp
next
  case (Cons e es)
  from Cons.prems(1) obtain s1 where s1: "fire e s = Some s1" and rest: "run es s1 = Some s'"
    by (auto split: option.splits)
  from Cons.prems(2) s1 have q: "\<not> loads_session e s" and k: "keeps_transcript es s1"
    by simp_all
  from Cons.IH [OF rest k] fire_balance [OF s1 q] s1 show ?case
    by simp
qed

text \<open>No event but the loading of the stored session shortens the transcript.\<close>

lemma resume_grows:
  assumes "\<not> loads_session (Settle i r now ts) s" and "tasks s ! i = t"
  shows "length (messages s) \<le> length (messages (fst (resume t r now ts s)))"
proof (cases t)
  case (InitGet sid)
  show ?thesis
  proof (cases r)
    case Rejects
    then show ?thesis using InitGet by (simp add: log_error_def)
  next
    case (Resolves e d)
    show ?thesis
    proof (cases d)
      case (Session m)
      show ?thesis
      proof (cases m)
        case None
        then show ?thesis
          using InitGet Resolves Session by (simp add: log_error_def save_initial_def invoke_def)
      next
        case (Some ms)
        then show ?thesis
          using InitGet Resolves Session assms
          by (auto simp add: log_error_def save_initial_def invoke_def)
      qed
    qed (use InitGet Resolves in \<open>simp_all add: log_error_def\<close>)
  qed
next
  case (SendComplete sid)
  then show ?thesis
    by (cases r) (simp_all add: send_failed_def saveMessageToMongoDB_def invoke_def
                    show_toast_def log_error_def Let_def)
next
  case EndPurge
  then show ?thesis by (cases r) (simp_all add: show_toast_def log_error_def)
next
  case InitSave
  then show ?thesis by (cases r) (simp_all add: log_error_def)
qed (simp_all add: invoke_def)

lemma settle_messages:
  "messages (settle i r now ts s) = messages (fst (resume (tasks s ! i) r now ts s))"
  by (cases "snd (resume (tasks s ! i) r now ts s)")
     (simp_all add: settle_None settle_Some)

lemma fire_grows:
  assumes "fire e s = Some s'" and "\<not> loads_session e s"
  shows "length (messages s) \<le> length (messages s')"
proof (cases e)
  case (Settle i r now ts)
  with assms resume_grows [of i r now ts s "tasks s ! i"] show ?thesis
    by (auto simp add: settle_messages split: if_splits)
next
  case (ClickSend now ts)
  with assms(1) show ?thesis
    by (auto simp add: handleSend_def saveMessageToMongoDB_def invoke_def Let_def split: if_splits)
next
  case (KeyEnter now ts)
  with assms(1) show ?thesis
    by (auto simp add: handleSend_def saveMessageToMongoDB_def invoke_def Let_def split: if_splits)
qed (use assms(1) in \<open>auto simp add: handleSuggestedQuery_def endChat_def invoke_def split: if_splits\<close>)

lemma run_grows:
  "run es s = Some s' \<Longrightarrow> keeps_transcript es s \<Longrightarrow> length (messages s) \<le> length (messages s')"
proof (induction es arbitrary: s)
  case Nil
  then show ?case by simp
next
  case (Cons e es)
  from Cons.prems(1) obtain s1 where s1: "fire e s = Some s1" and rest: "run es s1 = Some s'"
    by (auto split: option.splits)
  from Cons.prems(2) s1 have q: "\<not> loads_session e s" and k: "keeps_transcript es s1"
    by simp_all
  from Cons.IH [OF rest k] fire_grows [OF s1 q] show ?case
    by simp
qed

lemma loaded_transcript:
  assumes "fire e s = Some s'" and "loads_session e s"
  shows "\<exists>i ms now ts. e = Settle i (Resolves False (Session (Some ms))) now ts \<and> messages s' = ms"
  using assms
  by (cases "(e, s)" rule: loads_session.cases)
     (auto simp add: settle_messages split: if_splits task.splits)

lemma length_initialMessages: "length (initialMessages t0) = 1"
  by (simp add: initialMessages_def)

lemma initialMessages_not_Nil: "initialMessages t0 \<noteq> []"
  by (simp add: initialMessages_def)

lemma filter_update_other:
  assumes "i < length xs" and "\<not> P (xs ! i)" and "\<not> P t"
  shows "filter P (xs[i := t]) = filter P xs"
proof -
  have "xs[i := t] = take i xs @ t # drop (Suc i) xs"
    using assms(1) by (rule upd_conv_take_nth_drop)
  then have "filter P (xs[i := t]) = filter P (take i xs) @ filter P (drop (Suc i) xs)"
    using assms(3) by simp
  also have "\<dots> = filter P (take i xs @ xs ! i # drop (Suc i) xs)"
    using assms(2) by simp
  also have "\<dots> = filter P xs"
    using id_take_nth_drop [OF assms(1)] by simp
  finally show ?thesis .
qed

lemma filter_remove_other:
  assumes "i < length xs" and "\<not> P (xs ! i)"
  shows "filter P (take i xs @ drop (Suc i) xs) = filter P xs"
proof -
  have "filter P (take i xs @ drop (Suc i) xs) = filter P (take i xs @ xs ! i # drop (Suc i) xs)"
    using assms(2) by simp
  also have "\<dots> = filter P xs"
    using id_take_nth_drop [OF assms(1)] by simp
  finally show ?thesis .
qed

lemma filter_update_only:
  assumes "i < length xs" and "P (xs ! i)" and "\<not> P t" and "length (filter P xs) \<le> 1"
  shows "filter P (xs[i := t]) = []"
proof -
  from count_replace [OF assms(1), of P t] assms(2,3)
  have "length (filter P (xs[i := t])) + 1 = length (filter P xs)" by simp
  with assms(4) have "length (filter P (xs[i := t])) = 0" by arith
  then show ?thesis by (simp only: length_0_conv)
qed

lemma filter_remove_only:
  assumes "i < length xs" and "P (xs ! i)" and "length (filter P xs) \<le> 1"
  shows "filter P (take i xs @ drop (Suc i) xs) = []"
proof -
  from count_drop [OF assms(1), of P] assms(2)
  have "length (filter P (take i xs @ drop (Suc i) xs)) + 1 = length (filter P xs)" by simp
  with assms(3) have "length (filter P (take i xs @ drop (Suc i) xs)) = 0" by arith
  then show ?thesis by (simp only: length_0_conv)
qed

lemma resume_loaded: "loaded (fst (resume t r now ts s)) = loaded s"
  by (cases t; cases r)
     (auto simp add: handler_defs split: payload.splits option.splits)

lemma resume_not_hydrating:
  "snd (resume t r now ts s) = Some t' \<Longrightarrow> \<not> hydrating t'"
  by (cases t; cases r)
     (auto simp add: handler_defs split: payload.splits option.splits if_splits)

lemma resume_extends:
  assumes "\<not> hydrating t"
  shows "\<exists>rest. messages (fst (resume t r now ts s)) = messages s @ rest
               \<and> (rest = [] \<and> stored_records (fst (resume t r now ts s)) = stored_records s
                   \<or> stored_records (fst (resume t r now ts s)) \<noteq> [])"
  using assms
  by (cases t; cases r) (auto simp add: handler_defs stored_records_def)

lemma settle_loaded: "loaded (settle i r now ts s) = loaded s"
  by (cases "snd (resume (tasks s ! i) r now ts s)")
     (simp_all add: settle_None settle_Some resume_loaded)

lemma settle_stored_records:
  "stored_records (settle i r now ts s) = stored_records (fst (resume (tasks s ! i) r now ts s))"
  by (cases "snd (resume (tasks s ! i) r now ts s)")
     (simp_all add: settle_None settle_Some stored_records_def)

lemma settle_hydrating:
  assumes "i < length (tasks s)" and "length (filter hydrating (tasks s)) \<le> 1"
  shows "filter hydrating (tasks (settle i r now ts s)) =
           (if hydrating (tasks s ! i) then [] else filter hydrating (tasks s))"
proof (cases "snd (resume (tasks s ! i) r now ts s)")
  case None
  have t: "tasks (settle i r now ts s) = take i (tasks s) @ drop (Suc i) (tasks s)"
    by (simp add: settle_None [OF None])
  show ?thesis
  proof (cases "hydrating (tasks s ! i)")
    case True
    from filter_remove_only [of i "tasks s" hydrating, OF assms(1) True assms(2)] True show ?thesis
      by (simp only: t if_True)
  next
    case False
    from filter_remove_other [of i "tasks s" hydrating, OF assms(1) False] False show ?thesis
      by (simp only: t if_False)
  qed
next
  case (Some t')
  then have n: "\<not> hydrating t'" by (rule resume_not_hydrating)
  have t: "tasks (settle i r now ts s) = (tasks s)[i := t']"
    by (simp add: settle_Some [OF Some])
  show ?thesis
  proof (cases "hydrating (tasks s ! i)")
    case True
    from filter_update_only [of i "tasks s" hydrating t', OF assms(1) True n assms(2)] True show ?thesis
      by (simp only: t if_True)
  next
    case False
    from filter_update_other [of i "tasks s" hydrating t', OF assms(1) False n] False show ?thesis
      by (simp only: t if_False)
  qed
qed

lemma take_seed_append:
  "take (length seed) ms = seed \<Longrightarrow> take (length seed) (ms @ rest) = seed"
proof -
  assume a: "take (length seed) ms = seed"
  then have "length (take (length seed) ms) = length seed" by simp
  then have "length seed \<le> length ms" by simp
  then show ?thesis using a by simp
qed

lemma seeded_extended:
  assumes "seeded t0 sid s" and "loaded s' = loaded s"
    and "filter hydrating (tasks s') = filter hydrating (tasks s)"
    and "messages s' = messages s @ rest"
    and "rest = [] \<and> stored_records s' = stored_records s \<or> stored_records s' \<noteq> []"
  shows "seeded t0 sid s'"
proof -
  from assms(1) have l: "loaded s = t0" by (simp add: seeded_def)
  from assms(1) consider (handled) "filter hydrating (tasks s) = []"
    | (awaiting) "filter hydrating (tasks s) = [InitGet sid]"
        "take (length (initialMessages t0)) (messages s) = initialMessages t0"
        "stored_records s \<noteq> [] \<or> messages s = initialMessages t0"
    by (auto simp add: seeded_def)
  then show ?thesis
  proof cases
    case handled
    then show ?thesis using l assms(2,3) by (simp add: seeded_def)
  next
    case awaiting
    have "take (length (initialMessages t0)) (messages s') = initialMessages t0"
      using awaiting(2) assms(4) by (simp only: take_seed_append)
    moreover have "stored_records s' \<noteq> [] \<or> messages s' = initialMessages t0"
      using awaiting(3) assms(4,5) by auto
    ultimately show ?thesis
      using l assms(2,3) awaiting(1) by (simp add: seeded_def)
  qed
qed

lemma settle_seeded:
  assumes "seeded t0 sid s" and "i < length (tasks s)"
  shows "seeded t0 sid (settle i r now ts s)"
proof -
  from assms(1) have le: "length (filter hydrating (tasks s)) \<le> 1"
    by (auto simp add: seeded_def)
  from assms(1) have l: "loaded s = t0" by (simp add: seeded_def)
  show ?thesis
  proof (cases "hydrating (tasks s ! i)")
    case True
    with settle_hydrating [OF assms(2) le, of r now ts]
    have "filter hydrating (tasks (settle i r now ts s)) = []" by simp
    then show ?thesis
      using l by (simp add: seeded_def settle_loaded)
  next
    case False
    with settle_hydrating [OF assms(2) le, of r now ts]
    have same: "filter hydrating (tasks (settle i r now ts s)) = filter hydrating (tasks s)"
      by simp
    from resume_extends [OF False, of r now ts s]
    obtain rest where m: "messages (settle i r now ts s) = messages s @ rest"
      and r: "rest = [] \<and> stored_records (settle i r now ts s) = stored_records s
           \<or> stored_records (settle i r now ts s) \<noteq> []"
      unfolding settle_messages settle_stored_records by blast
    have ld: "loaded (settle i r now ts s) = loaded s" by (rule settle_loaded)
    from assms(1) ld same m r show ?thesis by (rule seeded_extended)
  qed
qed

lemma handleSend_seeded:
  assumes "seeded t0 sid s"
  shows "seeded t0 sid (handleSend now ts s)"
proof (cases "trim (input s) = []")
  case True
  then show ?thesis using assms by (simp add: handleSend_def)
next
  case False
  show ?thesis
    using assms
    by (rule seeded_extended
          [where rest = "[\<lparr>msg_id = toString now, content = input s, role = User, timestamp = ts\<rparr>]"])
       (simp_all add: handleSend_accepts [OF False] stored_records_def)
qed

lemma fire_seeded:
  assumes "seeded t0 sid s" and "fire e s = Some s'"
  shows "seeded t0 sid s'"
proof (cases e)
  case (Settle i r now ts)
  with assms settle_seeded [of t0 sid s i r now ts] show ?thesis
    by (auto split: if_splits)
next
  case (ClickSend now ts)
  with assms handleSend_seeded [of t0 sid s now ts] show ?thesis
    by (auto split: if_splits)
next
  case (KeyEnter now ts)
  with assms handleSend_seeded [of t0 sid s now ts] show ?thesis
    by (auto split: if_splits)
next
  case (Change v)
  with assms show ?thesis
    by (auto simp add: seeded_def stored_records_def split: if_splits)
next
  case (ClickSuggested i)
  with assms show ?thesis
    by (auto simp add: seeded_def stored_records_def handleSuggestedQuery_def split: if_splits)
next
  case ClickEndChat
  with assms show ?thesis
    by (auto simp add: seeded_def stored_records_def endChat_def invoke_def)
qed

lemma run_seeded:
  "seeded t0 sid s \<Longrightarrow> run es s = Some s' \<Longrightarrow> seeded t0 sid s'"
proof (induction es arbitrary: s)
  case Nil
  then show ?case by simp
next
  case (Cons e es)
  then show ?case
    by (auto split: option.splits dest: fire_seeded)
qed

lemma mount_fields:
  "messages (mount stored cc t0 uuid) = initialMessages t0"
  "loaded (mount stored cc t0 uuid) = t0"
  "tasks (mount stored cc t0 uuid) = [InitGet (sessionId (mount stored cc t0 uuid))]"
  "invoked (mount stored cc t0 uuid) = [GetSession (sessionId (mount stored cc t0 uuid))]"
  by (simp_all add: mount_def initSession_def invoke_def Let_def)

lemma mount_seeded: "seeded t0 (sessionId (mount stored cc t0 uuid)) (mount stored cc t0 uuid)"
  by (simp add: seeded_def mount_fields)

lemma settle_InitGet_empty:
  assumes "i < length (tasks s)" and "tasks s ! i = InitGet sid" and "ms = None \<or> ms = Some []"
  shows "settle i (Resolves False (Session ms)) now ts s =
           s\<lparr>invoked := invoked s @ [SaveSession sid (initialMessages (loaded s))],
             tasks := (tasks s)[i := InitSave]\<rparr>"
  using assms
  by (auto simp add: settle_def save_initial_def invoke_def length_initialMessages)

lemma mount_stored:
  "old \<noteq> [] \<Longrightarrow> sessionId (mount (Some old) cc t0 uuid) = old
     \<and> localStorage (mount (Some old) cc t0 uuid) = Some old"
  by (simp add: handler_defs)












subsection \<open>Ending the chat\<close>

text \<open>
  C2, as stated, fails. A completion is awaited when the chat is ended and the purge
  settles; the reply that arrives afterwards is appended to the transcript and sent to
  the store with \<open>saveMessage\<close>, after \<open>endSession\<close>; and once the turn is over,
  a further message is typed, sent and appended.
\<close>

theorem terminated_session_still_appends:
  "map_option messages
     (run [ClickEndChat, Settle 2 (Resolves False Null) 0 0,
           Settle 1 (Resolves False (Generated (Some ''ok''))) 9 10,
           Settle 1 (Resolves False Null) 0 0,
           Change ''more'', ClickSend 20 21] in_flight)
   = Some (initialMessages 0
           @ [\<lparr>msg_id = toString 5, content = ''hi'', role = User, timestamp = 6\<rparr>,
              \<lparr>msg_id = toString 10, content = ''ok'', role = Bot, timestamp = 10\<rparr>,
              \<lparr>msg_id = toString 20, content = ''more'', role = User, timestamp = 21\<rparr>])
   \<and> map_option invoked
     (run [ClickEndChat, Settle 2 (Resolves False Null) 0 0,
           Settle 1 (Resolves False (Generated (Some ''ok''))) 9 10] in_flight)
   = Some [GetSession ''s-1'',
           SaveMessage ''s-1'' \<lparr>msg_id = toString 5, content = ''hi'', role = User, timestamp = 6\<rparr>,
           GeminiHealthChat ''hi'' (previousMessages (initialMessages 0)),
           EndSession ''s-1'',
           SaveMessage ''s-1'' \<lparr>msg_id = toString 10, content = ''ok'', role = Bot, timestamp = 10\<rparr>]"
  by (simp add: in_flight_def sent_def fresh_def handler_defs botMessage_def)

text \<open>
  C2, amended. The component keeps no record of having been ended. In a component
  that was given no \<open>closeChat\<close> callback (what a callback does is the parent's code;
  the model only counts its calls), \<open>endChat\<close> asks the store to end the session, and
  the settling of that call, whatever its outcome, leaves the transcript, the input, the
  loading flag and the suspended handlers as they were before the click. So a submission
  is accepted afterwards exactly when it was before, and it appends its message; and a
  completion that was awaited when the chat was ended, when it succeeds, has its reply
  appended to the transcript and sent to the store with \<open>saveMessage\<close>.
\<close>

theorem termination_leaves_controller_running:
  fixes s :: chatbot and i now ts now2 ts2 n t :: nat and r r2 :: response
  assumes "\<not> closeChat s"
  defines "s1 \<equiv> endChat s"
  defines "s2 \<equiv> settle (length (tasks s)) r now ts s1"
  defines "s3 \<equiv> settle i r2 now2 ts2 s2"
  shows "fire ClickEndChat s = Some s1
         \<and> invoked s1 = invoked s @ [EndSession (sessionId s)]
         \<and> messages s2 = messages s \<and> input s2 = input s \<and> isLoading s2 = isLoading s
         \<and> tasks s2 = tasks s \<and> invoked s2 = invoked s1
         \<and> button_disabled s2 = button_disabled s
         \<and> (\<not> button_disabled s \<longrightarrow>
              fire (ClickSend n t) s2 = Some (handleSend n t s2)
              \<and> messages (handleSend n t s2) = messages s
                   @ [\<lparr>msg_id = toString n, content = input s, role = User, timestamp = t\<rparr>])
         \<and> (i < length (tasks s) \<and> tasks s ! i = SendComplete sid \<and> \<not> completion_failed r2 \<longrightarrow>
              (\<exists>d. r2 = Resolves False d
                   \<and> messages s3 = messages s @ [botMessage d now2 ts2]
                   \<and> invoked s3 = invoked s2 @ [SaveMessage sid (botMessage d now2 ts2)]))"
proof -
  have s1: "s1 = s\<lparr>invoked := invoked s @ [EndSession (sessionId s)],
                     tasks := tasks s @ [EndPurge]\<rparr>"
    unfolding s1_def by (rule endChat_fields)
  have j: "length (tasks s) < length (tasks s1)" and tj: "tasks s1 ! length (tasks s) = EndPurge"
    by (simp_all add: s1)
  have s2: "messages s2 = messages s \<and> input s2 = input s \<and> isLoading s2 = isLoading s
         \<and> tasks s2 = tasks s \<and> invoked s2 = invoked s1"
  proof (cases r)
    case Rejects
    then show ?thesis
      unfolding s2_def using settle_EndPurge_rejects [OF j tj, of now ts] by (simp add: s1)
  next
    case (Resolves e d)
    then show ?thesis
      unfolding s2_def using settle_EndPurge_resolves [OF j tj, of e d now ts] by (simp add: s1)
  qed
  then have bd: "button_disabled s2 = button_disabled s"
    by (simp add: button_disabled_def)
  have send: "\<not> button_disabled s \<Longrightarrow>
              fire (ClickSend n t) s2 = Some (handleSend n t s2)
              \<and> messages (handleSend n t s2) = messages s
                   @ [\<lparr>msg_id = toString n, content = input s, role = User, timestamp = t\<rparr>]"
    using s2 bd by (simp add: handleSend_accepts button_disabled_def)
  have reply: "i < length (tasks s) \<and> tasks s ! i = SendComplete sid \<and> \<not> completion_failed r2 \<Longrightarrow>
              (\<exists>d. r2 = Resolves False d
                   \<and> messages s3 = messages s @ [botMessage d now2 ts2]
                   \<and> invoked s3 = invoked s2 @ [SaveMessage sid (botMessage d now2 ts2)])"
  proof -
    assume h: "i < length (tasks s) \<and> tasks s ! i = SendComplete sid \<and> \<not> completion_failed r2"
    then have "i < length (tasks s2)" "tasks s2 ! i = SendComplete sid" "\<not> completion_failed r2"
      using s2 by simp_all
    from settle_SendComplete_ok [OF this, of now2 ts2]
    show ?thesis unfolding s3_def using s2 by auto
  qed
  show ?thesis
    using s1 s2 bd send reply by (simp add: s1_def)
qed

theorem termination_leaves_controller_running_witness:
  "\<not> closeChat in_flight
   \<and> 1 < length (tasks in_flight) \<and> tasks in_flight ! 1 = SendComplete ''s-1''
   \<and> \<not> completion_failed (Resolves False (Generated (Some ''ok'')))
   \<and> messages (settle 1 (Resolves False (Generated (Some ''ok''))) 9 10
                 (settle (length (tasks in_flight)) Rejects 0 0 (endChat in_flight)))
       = messages in_flight @ [botMessage (Generated (Some ''ok'')) 9 10]"
proof -
  have h1: "1 < length (tasks in_flight)" and h2: "tasks in_flight ! 1 = SendComplete ''s-1''"
    by (simp_all add: tasks_in_flight)
  have h3: "\<not> completion_failed (Resolves False (Generated (Some ''ok'')))" by simp
  have h0: "\<not> closeChat in_flight"
    by (simp add: in_flight_def sent_def fresh_def handler_defs)
  show ?thesis
    using h0 h1 h2 h3
      termination_leaves_controller_running
        [OF h0, where r = Rejects and now = 0 and ts = 0 and i = 1
           and sid = "''s-1''" and ?r2.0 = "Resolves False (Generated (Some ''ok''))"
           and ?now2.0 = 9 and ?ts2.0 = 10]
    by auto
qed

text \<open>
  C3, as stated, fails. When the \<open>endSession\<close> call rejects, the stored identifier is
  still there, and the next mount resolves to it.
\<close>

theorem failed_purge_keeps_identity:
  "map_option localStorage (run [ClickEndChat, Settle 1 Rejects 0 0] returning) = Some (Some ''s-0'')
   \<and> sessionId returning = ''s-0''
   \<and> sessionId (mount (Some ''s-0'') True 8 ''s-2'') = ''s-0''"
  by (simp add: returning_def handler_defs)

text \<open>
  C3, amended. When the \<open>endSession\<close> call resolves, with or without an error in its
  result, the stored identifier is erased, and the next mount takes the identifier newly
  minted by \<open>uuidv4\<close> and stores it (it is the previous one only if the generator
  repeats itself). When the call rejects, the error toast is shown and the entry in
  localStorage is left as it is: if an identifier is stored there, the next mount
  resolves to that same identifier and keeps it stored; if none is (an earlier ending
  had erased it), the next mount mints a new one.
\<close>

theorem settled_purge_erases_identity:
  assumes "j < length (tasks s)" and "tasks s ! j = EndPurge"
  shows "localStorage (settle j (Resolves e d) now ts s) = None
         \<and> sessionId (mount (localStorage (settle j (Resolves e d) now ts s)) cc t0 uuid) = uuid
         \<and> localStorage (mount (localStorage (settle j (Resolves e d) now ts s)) cc t0 uuid)
             = Some uuid
         \<and> localStorage (settle j Rejects now ts s) = localStorage s
         \<and> toasts (settle j Rejects now ts s) =
             toasts s @ [\<lparr>title = ''Error'',
                           description = ''Failed to end chat session properly.'',
                           destructive = True\<rparr>]
         \<and> (localStorage s = Some old \<and> old \<noteq> [] \<longrightarrow>
              sessionId (mount (localStorage (settle j Rejects now ts s)) cc t0 uuid) = old
              \<and> localStorage (mount (localStorage (settle j Rejects now ts s)) cc t0 uuid)
                  = Some old)
         \<and> (localStorage s = None \<longrightarrow>
              sessionId (mount (localStorage (settle j Rejects now ts s)) cc t0 uuid) = uuid)"
proof -
  have a: "localStorage (settle j (Resolves e d) now ts s) = None"
    using assms by (simp add: settle_EndPurge_resolves)
  have b: "localStorage (settle j Rejects now ts s) = localStorage s"
    "toasts (settle j Rejects now ts s) =
             toasts s @ [\<lparr>title = ''Error'',
                           description = ''Failed to end chat session properly.'',
                           destructive = True\<rparr>]"
    using assms by (simp_all add: settle_EndPurge_rejects)
  show ?thesis
    using mount_nothing_stored [of cc t0 uuid] mount_stored [of old cc t0 uuid]
    by (auto simp add: a b)
qed

theorem settled_purge_erases_identity_witness:
  "1 < length (tasks (endChat returning)) \<and> tasks (endChat returning) ! 1 = EndPurge
   \<and> localStorage (endChat returning) = Some ''s-0'' \<and> ''s-0'' \<noteq> []
   \<and> localStorage (settle 1 (Resolves True Null) 0 0 (endChat returning)) = None
   \<and> sessionId (mount (localStorage (settle 1 (Resolves True Null) 0 0 (endChat returning)))
                  True 8 ''s-2'') = ''s-2''
   \<and> sessionId (mount (localStorage (settle 1 Rejects 0 0 (endChat returning)))
                  True 8 ''s-2'') = ''s-0''"
proof -
  have t: "tasks (endChat returning) = [InitGet ''s-0'', EndPurge]"
    and l: "localStorage (endChat returning) = Some ''s-0''"
    by (simp_all add: returning_def handler_defs)
  have h1: "1 < length (tasks (endChat returning))" and h2: "tasks (endChat returning) ! 1 = EndPurge"
    by (simp_all add: t)
  have n: "''s-0'' \<noteq> []" by simp
  show ?thesis
    using h1 h2 l n
      settled_purge_erases_identity [OF h1 h2, of True Null 0 0 True 8 "''s-2''" "''s-0''"]
    by blast
qed

subsection \<open>Hydration\<close>

text \<open>
  C4, as stated, fails: when the stored session has no messages, the greeting is sent to
  the store with \<open>saveSession\<close>; no \<open>saveMessage\<close> is made.
\<close>

theorem seed_saved_with_saveSession:
  "map_option invoked (run [Settle 0 (Resolves False (Session (Some []))) 0 0] fresh) =
     Some [GetSession ''s-1'', SaveSession ''s-1'' (initialMessages 0)]
   \<and> map_option messages (run [Settle 0 (Resolves False (Session (Some []))) 0 0] fresh) =
     Some (initialMessages 0)"
  by (simp add: fresh_def handler_defs initialMessages_def)

text \<open>
  C4, amended. A component is mounted with the initial messages as its transcript: a
  single greeting with the role of the assistant. As long as the answer to
  \<open>getSession\<close> is awaited, whatever else has happened, the transcript begins with that
  greeting. When the answer has no messages (no such field, or an empty list), the
  transcript is left as it is, and the initial messages are sent to the store at once in
  one \<open>saveSession\<close> call, not with \<open>saveMessage\<close>. If nothing had been written to the
  store before, the transcript is then exactly the greeting, and this \<open>saveSession\<close>
  is the first write to the store.
\<close>

theorem empty_session_saves_seed:
  fixes now ts t0 i :: nat and stored :: "string option" and cc :: bool and uuid sid :: string
  assumes "run es (mount stored cc t0 uuid) = Some s"
    and "i < length (tasks s)" and "tasks s ! i = InitGet sid"
    and "ms = None \<or> ms = Some []"
  defines "s1 \<equiv> settle i (Resolves False (Session ms)) now ts s"
  shows "messages (mount stored cc t0 uuid) = initialMessages t0
         \<and> length (initialMessages t0) = 1 \<and> role (hd (initialMessages t0)) = Bot
         \<and> sid = sessionId (mount stored cc t0 uuid)
         \<and> take 1 (messages s) = initialMessages t0
         \<and> messages s1 = messages s
         \<and> invoked s1 = invoked s @ [SaveSession sid (initialMessages t0)]
         \<and> (stored_records s = [] \<longrightarrow>
              messages s1 = initialMessages t0
              \<and> stored_records s1 = [SaveSession sid (initialMessages t0)])"
proof -
  let ?sid = "sessionId (mount stored cc t0 uuid)"
  have inv: "seeded t0 ?sid s"
    using mount_seeded assms(1) by (rule run_seeded)
  have "tasks s ! i \<in> set (tasks s)"
    using assms(2) by (rule nth_mem)
  then have mem: "InitGet sid \<in> set (filter hydrating (tasks s))"
    using assms(3) by simp
  have ne: "filter hydrating (tasks s) \<noteq> []"
  proof
    assume e: "filter hydrating (tasks s) = []"
    from mem show False unfolding e by simp
  qed
  from inv have l: "loaded s = t0" by (simp add: seeded_def)
  from inv ne have pend: "filter hydrating (tasks s) = [InitGet ?sid]"
    and seed: "take (length (initialMessages t0)) (messages s) = initialMessages t0"
    and only: "stored_records s \<noteq> [] \<or> messages s = initialMessages t0"
    by (auto simp add: seeded_def)
  from mem pend have sid: "sid = ?sid" by simp
  have s1: "s1 = s\<lparr>invoked := invoked s @ [SaveSession sid (initialMessages t0)],
                    tasks := (tasks s)[i := InitSave]\<rparr>"
    unfolding s1_def using settle_InitGet_empty [OF assms(2,3,4), of now ts] l by simp
  have b: "length (initialMessages t0) = 1" "role (hd (initialMessages t0)) = Bot"
    by (simp_all add: initialMessages_def)
  have c: "take 1 (messages s) = initialMessages t0"
    using seed b(1) by simp
  have d: "messages s1 = messages s" "invoked s1 = invoked s @ [SaveSession sid (initialMessages t0)]"
    by (simp_all add: s1)
  have e: "stored_records s = [] \<Longrightarrow> messages s1 = initialMessages t0
              \<and> stored_records s1 = [SaveSession sid (initialMessages t0)]"
    using only by (simp add: s1 stored_records_def)
  show ?thesis
    using sid b c d e by (simp add: mount_fields)
qed

theorem empty_session_saves_seed_witness:
  "run [] (mount None False 0 ''s-1'') = Some fresh
   \<and> 0 < length (tasks fresh) \<and> tasks fresh ! 0 = InitGet ''s-1''
   \<and> (Some [] = None \<or> Some [] = Some ([] :: Message list))
   \<and> stored_records fresh = []
   \<and> messages (settle 0 (Resolves False (Session (Some []))) 0 0 fresh) = initialMessages 0
   \<and> stored_records (settle 0 (Resolves False (Session (Some []))) 0 0 fresh)
       = [SaveSession ''s-1'' (initialMessages 0)]"
proof -
  have h1: "run [] (mount None False 0 ''s-1'') = Some fresh" by (simp add: fresh_def)
  have t: "tasks fresh = [InitGet ''s-1'']" and r: "stored_records fresh = []"
    by (simp_all add: fresh_def handler_defs stored_records_def)
  have h2: "0 < length (tasks fresh)" and h3: "tasks fresh ! 0 = InitGet ''s-1''"
    by (simp_all add: t)
  have h4: "Some [] = None \<or> Some [] = Some ([] :: Message list)" by simp
  show ?thesis
    using h1 h2 h3 h4 r empty_session_saves_seed [OF h1 h2 h3 h4, of 0 0] by blast
qed

subsection \<open>The length of the transcript\<close>

text \<open>
  C7, as stated, fails. A returning visitor sends \<open>hi\<close> before the \<open>getSession\<close>
  call has settled: the transcript has two messages. The call then settles with the one
  message stored, which replaces the transcript: it has one message. After the reply of
  this first turn it has two, not three.
\<close>

theorem hydration_can_shorten_transcript:
  "map_option messages (run [Change ''hi'', ClickSend 5 6] returning)
     = Some (initialMessages 7
             @ [\<lparr>msg_id = toString 5, content = ''hi'', role = User, timestamp = 6\<rparr>])
   \<and> map_option messages
       (run [Change ''hi'', ClickSend 5 6,
             Settle 0 (Resolves False (Session (Some (initialMessages 3)))) 0 0] returning)
     = Some (initialMessages 3)
   \<and> map_option messages
       (run [Change ''hi'', ClickSend 5 6,
             Settle 0 (Resolves False (Session (Some (initialMessages 3)))) 0 0,
             Settle 0 (Resolves False Null) 0 0,
             Settle 0 (Resolves False (Generated (Some ''ok''))) 9 10,
             Settle 0 (Resolves False Null) 0 0] returning)
     = Some (initialMessages 3
             @ [\<lparr>msg_id = toString 10, content = ''ok'', role = Bot, timestamp = 10\<rparr>])
   \<and> length (initialMessages 7) = 1 \<and> length (initialMessages 3) = 1"
  by (simp add: returning_def handler_defs botMessage_def initialMessages_def)

text \<open>
  C7, amended. Take any run of events, from any state, in which the \<open>getSession\<close> call
  does not settle with stored messages. Then the length of the transcript, plus the
  number of submissions whose reply is still to come, grows by exactly two with every
  submission that is taken up, whether its completion succeeds or fails, and by nothing
  else: if no reply is owed at the start and none at the end, the transcript is longer by
  twice the number of submissions. The transcript is never shorter at the end of such a
  run, ending the chat included. The one event that is excluded puts the stored messages
  in place of the transcript.
\<close>

theorem transcript_grows_by_two_per_submission:
  assumes "run es s = Some s'" and "keeps_transcript es s"
  shows "length (messages s') + awaited s'
           = length (messages s) + awaited s + 2 * submissions es s
         \<and> (awaited s = 0 \<and> awaited s' = 0 \<longrightarrow>
              length (messages s') = length (messages s) + 2 * submissions es s)
         \<and> length (messages s) \<le> length (messages s')
         \<and> (\<forall>e t t'. fire e t = Some t' \<and> \<not> loads_session e t \<longrightarrow>
               length (messages t) \<le> length (messages t'))
         \<and> (\<forall>e t t'. fire e t = Some t' \<and> loads_session e t \<longrightarrow>
               (\<exists>i ms now ts. e = Settle i (Resolves False (Session (Some ms))) now ts
                               \<and> messages t' = ms))"
proof -
  have a: "length (messages s') + awaited s'
           = length (messages s) + awaited s + 2 * submissions es s"
    using assms by (rule run_balance)
  have b: "length (messages s) \<le> length (messages s')"
    using assms by (rule run_grows)
  show ?thesis
    using a b fire_grows loaded_transcript by auto
qed

theorem transcript_grows_by_two_per_submission_witness:
  "\<exists>s'. run mixed_run fresh = Some s' \<and> keeps_transcript mixed_run fresh
        \<and> submissions mixed_run fresh = 2 \<and> awaited fresh = 0 \<and> awaited s' = 0
        \<and> length (messages s') = length (messages fresh) + 2 * 2"
proof -
  have r: "map_option awaited (run mixed_run fresh) = Some 0"
    by (simp add: mixed_run_def fresh_def handler_defs awaited_def length_initialMessages initialMessages_not_Nil)
  then obtain s' where h1: "run mixed_run fresh = Some s'" and a': "awaited s' = 0"
    by auto
  have h2: "keeps_transcript mixed_run fresh"
    by (simp add: mixed_run_def fresh_def handler_defs length_initialMessages initialMessages_not_Nil)
  have n: "submissions mixed_run fresh = 2"
    by (simp add: mixed_run_def fresh_def handler_defs length_initialMessages initialMessages_not_Nil)
  have a: "awaited fresh = 0"
    by (simp add: fresh_def handler_defs awaited_def)
  show ?thesis
    using h1 h2 n a a' transcript_grows_by_two_per_submission [OF h1 h2] by auto
qed

subsection \<open>The context window\<close>




end
